theory Spec2Isabelle
  imports Main "HOL-Library.Word"
begin

section \<open>Strings and properties\<close>

text \<open>
  A JavaScript string is a sequence of UTF-16 code units: \<open>s.length\<close> counts code units,
  \<open>s[i]\<close> is the one-unit string at \<open>i\<close> (or \<open>undefined\<close> out of range) and
  \<open>s.charCodeAt(0)\<close> is the first unit as a number. A raw value that may be
  \<open>undefined\<close> is a \<open>jsstring option\<close>, with \<open>None\<close> for \<open>undefined\<close>.
\<close>

type_synonym jschar = "16 word"
type_synonym jsstring = "jschar list"

datatype error = TypeError | ReferenceError

text \<open>
  The properties of \<open>PinInput\<close>, which it hands to every \<open>PinItem\<close> unchanged.
  \<open>length_prop\<close>, \<open>type_prop\<close> and \<open>focus_prop\<close> are the props \<open>length\<close>, \<open>type\<close> and
  \<open>focus\<close>. \<open>validate\<close> is the optional custom validator. \<open>regexCriteria\<close> is the
  \<open>test\<close> method of the regular expression (one without the flags \<open>g\<close> and \<open>y\<close>, so that
  \<open>test\<close> keeps no state). \<open>onChange\<close> and \<open>onComplete\<close> say whether
  the external callback is supplied (\<open>onChange?.(...)\<close> does nothing when it is not).
  \<open>unicodeUpper\<close> stands for \<open>String.prototype.toUpperCase\<close> on strings that hold a
  code unit outside ASCII: the Unicode case tables are the host's, not the repository's.
\<close>

record props =
  length_prop :: nat
  type_prop :: string
  validate :: "(jsstring option \<Rightarrow> jsstring) option"
  regexCriteria :: "jsstring \<Rightarrow> bool"
  secret :: bool
  secretDelay :: nat
  disabled :: bool
  focus_prop :: bool
  onChange :: bool
  onComplete :: bool
  unicodeUpper :: "jsstring \<Rightarrow> jsstring"

text \<open>The default \<open>regexCriteria\<close>, \<open>/^[a-zA-Z0-9]+$/\<close>: one or more ASCII letters or digits.\<close>

definition isAlnum :: "jschar \<Rightarrow> bool" where
  "isAlnum c =
     (let n = unat c
      in (97 \<le> n \<and> n \<le> 122) \<or> (65 \<le> n \<and> n \<le> 90) \<or> (48 \<le> n \<and> n \<le> 57))"

definition default_regexCriteria :: "jsstring \<Rightarrow> bool" where
  "default_regexCriteria s = (s \<noteq> [] \<and> list_all isAlnum s)"

text \<open>\<open>toUpperCase\<close>: on ASCII only \<open>a\<close> to \<open>z\<close> change, each to the unit 32 below.\<close>

definition asciiUpper :: "jschar \<Rightarrow> jschar" where
  "asciiUpper c = (if 97 \<le> unat c \<and> unat c \<le> 122 then c - 32 else c)"

definition toUpperCase :: "(jsstring \<Rightarrow> jsstring) \<Rightarrow> jsstring \<Rightarrow> jsstring" where
  "toUpperCase uni s = (if list_all (\<lambda>c. unat c < 128) s then map asciiUpper s else uni s)"

text \<open>The string \<open>"undefined"\<close>, which \<open>RegExp.prototype.test\<close> tests when it is given \<open>undefined\<close>.\<close>

definition str_undefined :: jsstring where
  "str_undefined = [117, 110, 100, 101, 102, 105, 110, 101, 100]"

text \<open>
  What \<open>validateValue\<close> returns (PinItem.tsx, lines 74 to 91). With \<open>undefined\<close> for
  \<open>rawValue\<close> the numeric branch returns the empty string at \<open>!rawValue\<close>, and the
  regex branch, when the expression matches \<open>"undefined"\<close>, throws at
  \<open>rawValue.toUpperCase()\<close>.
\<close>

definition validateValue_result :: "props \<Rightarrow> jsstring option \<Rightarrow> error + jsstring" where
  "validateValue_result p rawValue =
     (case validate p of
        Some f \<Rightarrow> Inr (f rawValue)
      | None \<Rightarrow>
          if type_prop p = ''numeric'' then
            (case rawValue of
               None \<Rightarrow> Inr []
             | Some r \<Rightarrow>
                 if r = [] then Inr []
                 else (let numCode = unat (hd r);
                           isDigit = (48 \<le> numCode \<and> numCode \<le> 57)
                       in Inr (if isDigit then r else [])))
          else
            (case rawValue of
               None \<Rightarrow> if regexCriteria p str_undefined then Inl TypeError else Inr []
             | Some r \<Rightarrow>
                 if regexCriteria p r then Inr (toUpperCase (unicodeUpper p) r) else Inr []))"

section \<open>The state of the widget\<close>

text \<open>
  A \<open>PinItem\<close> holds its \<open>value\<close> (here \<open>cell_value\<close>) and \<open>showSecret\<close>, and the refs
  \<open>secretTimeoutRef\<close>, \<open>inputTimeoutRef\<close> (a timer id or \<open>null\<close>) and \<open>inputRef\<close>
  (whether \<open>inputRef.current\<close> is the mounted input element). Its \<open>focus\<close> state only
  selects the style and is left out.

  The window's pending timers are kept in the order they were set. A timer remembers
  the cell that set it (\<open>owner\<close>), its delay and its closure: \<open>HideSecret val\<close> is
  \<open>() => setShowSecret(Boolean(val))\<close> and \<open>Notify validated isPasting\<close> is
  \<open>() => onChange(validated, isPasting)\<close>.

  \<open>PinInput\<close> holds \<open>valuesRef.current\<close> and \<open>elementsRef.current\<close>; a handle is \<open>None\<close>
  when the entry is \<open>null\<close> or missing, and otherwise it is the live cell.
  \<open>activeElement\<close> is the cell whose input has the document's focus, and \<open>calls\<close> lists
  the calls made to the external callbacks, oldest first.
\<close>

datatype timer_action = HideSecret "jsstring option" | Notify jsstring bool

record timer =
  timer_id :: nat
  owner :: nat
  delay :: nat
  action :: timer_action

record cell =
  cell_value :: jsstring
  showSecret :: bool
  secretTimeoutRef :: "nat option"
  inputTimeoutRef :: "nat option"
  inputRef :: bool

datatype callback = OnChange jsstring nat | OnComplete jsstring nat

record widget =
  valuesRef :: "jsstring list"
  elementsRef :: "cell option list"
  activeElement :: "nat option"
  timers :: "timer list"
  nextTimer :: nat
  calls :: "callback list"

definition getCell :: "widget \<Rightarrow> nat \<Rightarrow> cell option" where
  "getCell w i = (if i < length (elementsRef w) then elementsRef w ! i else None)"

definition putCell :: "nat \<Rightarrow> cell \<Rightarrow> widget \<Rightarrow> widget" where
  "putCell i c w = w\<lparr>elementsRef := (elementsRef w)[i := Some c]\<rparr>"

definition setTimeout :: "nat \<Rightarrow> timer_action \<Rightarrow> nat \<Rightarrow> widget \<Rightarrow> nat \<times> widget" where
  "setTimeout i a d w =
     (nextTimer w,
      w\<lparr>timers := timers w @ [\<lparr>timer_id = nextTimer w, owner = i, delay = d, action = a\<rparr>],
        nextTimer := Suc (nextTimer w)\<rparr>)"

definition clearTimeout :: "nat \<Rightarrow> widget \<Rightarrow> widget" where
  "clearTimeout t w = w\<lparr>timers := filter (\<lambda>x. timer_id x \<noteq> t) (timers w)\<rparr>"

section \<open>PinItem\<close>

text \<open>
  \<open>setSecretDelayed\<close> (lines 198 to 209). The test \<open>if (secretTimeoutRef.current)\<close>
  fails for \<open>null\<close> and for the number 0.
\<close>

definition setSecretDelayed ::
  "props \<Rightarrow> nat \<Rightarrow> jsstring option \<Rightarrow> cell \<Rightarrow> widget \<Rightarrow> cell \<times> widget" where
  "setSecretDelayed p i val c w =
     (let c1 = c\<lparr>showSecret := False\<rparr>;
          w1 = (case secretTimeoutRef c1 of
                  None \<Rightarrow> w
                | Some t \<Rightarrow> if t \<noteq> 0 then clearTimeout t w else w);
          (t', w2) = setTimeout i (HideSecret val) (secretDelay p) w1
      in (c1\<lparr>secretTimeoutRef := Some t'\<rparr>, w2))"

text \<open>\<open>validateValue\<close> (lines 68 to 92): the secret delay first, then the value returned.\<close>

definition validateValue ::
  "props \<Rightarrow> nat \<Rightarrow> jsstring option \<Rightarrow> cell \<Rightarrow> widget \<Rightarrow> error + (jsstring \<times> cell \<times> widget)" where
  "validateValue p i rawValue c w =
     (let (c1, w1) = (if secretDelay p \<noteq> 0 then setSecretDelayed p i rawValue c w else (c, w))
      in case validateValue_result p rawValue of
           Inl e \<Rightarrow> Inl e
         | Inr v \<Rightarrow> Inr (v, c1, w1))"


definition focusInput :: "props \<Rightarrow> nat \<Rightarrow> cell \<Rightarrow> widget \<Rightarrow> widget" where
  "focusInput p i c w = (if inputRef c \<and> \<not> disabled p then w\<lparr>activeElement := Some i\<rparr> else w)"

text \<open>\<open>update\<close> (lines 128 to 141).\<close>

definition update ::
  "props \<Rightarrow> nat \<Rightarrow> jsstring option \<Rightarrow> bool \<Rightarrow> cell \<Rightarrow> widget \<Rightarrow> error + (cell \<times> widget)" where
  "update p i updatedValue isPasting c w =
     (case validateValue p i updatedValue c w of
        Inl e \<Rightarrow> Inl e
      | Inr (validated, c1, w1) \<Rightarrow>
          if validated = cell_value c \<and> \<not> isPasting then Inr (c1, w1)
          else if length validated < 2 then
            (let (t, w2) = setTimeout i (Notify validated isPasting) 0 w1
             in Inr (c1\<lparr>cell_value := validated, inputTimeoutRef := Some t\<rparr>, w2))
          else Inr (c1, w1))"

section \<open>PinInput\<close>

text \<open>\<open>elementsRef.current[i]?.focus()\<close>.\<close>

definition focusCell :: "props \<Rightarrow> nat \<Rightarrow> widget \<Rightarrow> widget" where
  "focusCell p i w = (case getCell w i of None \<Rightarrow> w | Some c \<Rightarrow> focusInput p i c w)"

text \<open>The effect of lines 82 to 86: \<open>elementsRef.current[0].focus()\<close>, with no \<open>?.\<close>, which
  throws a \<open>TypeError\<close> when there is no handle at index 0.\<close>

definition focusEffect :: "props \<Rightarrow> widget \<Rightarrow> error + widget" where
  "focusEffect p w =
     (if focus_prop p \<and> length_prop p \<noteq> 0 then
        (case getCell w 0 of None \<Rightarrow> Inl TypeError | Some c \<Rightarrow> Inr (focusInput p 0 c w))
      else Inr w)"



text \<open>
  \<open>valuesRef.current[index] = value\<close>: past the end the array grows, and the holes left
  between read as empty strings in \<open>join\<close>.
\<close>

definition assign :: "jsstring list \<Rightarrow> nat \<Rightarrow> jsstring \<Rightarrow> jsstring list" where
  "assign xs i v =
     (if i < length xs then xs[i := v] else xs @ replicate (i - length xs) [] @ [v])"

definition callOnChange :: "props \<Rightarrow> jsstring \<Rightarrow> nat \<Rightarrow> widget \<Rightarrow> widget" where
  "callOnChange p pin currentIndex w =
     (if onChange p then w\<lparr>calls := calls w @ [OnChange pin currentIndex]\<rparr> else w)"

definition callOnComplete :: "props \<Rightarrow> jsstring \<Rightarrow> nat \<Rightarrow> widget \<Rightarrow> widget" where
  "callOnComplete p pin currentIndex w =
     (if onComplete p then w\<lparr>calls := calls w @ [OnComplete pin currentIndex]\<rparr> else w)"

text \<open>\<open>onItemChange\<close> (lines 109 to 136). \<open>length - 1\<close> is computed in the integers.\<close>

definition onItemChange :: "props \<Rightarrow> jsstring \<Rightarrow> bool \<Rightarrow> nat \<Rightarrow> widget \<Rightarrow> widget" where
  "onItemChange p v isPasting index w =
     (let w1 = w\<lparr>valuesRef := assign (valuesRef w) index v\<rparr>;
          advance = (length v = 1 \<and> int index < int (length_prop p) - 1);
          currentIndex = (if advance then index + 1 else index);
          w2 = (if advance then focusCell p currentIndex w1 else w1);
          pin = concat (valuesRef w2);
          w3 = (if \<not> isPasting then callOnChange p pin currentIndex w2 else w2)
      in if length pin = length_prop p then
           (if isPasting \<and> int index < int (length_prop p) - 1 then w3
            else callOnComplete p pin currentIndex w3)
         else w3)"

definition handleBackspace :: "props \<Rightarrow> nat \<Rightarrow> widget \<Rightarrow> widget" where
  "handleBackspace p index w = (if index > 0 then focusCell p (index - 1) w else w)"

text \<open>
  \<open>handlePaste\<close> (lines 147 to 157). \<open>charAt s i\<close> is \<open>s[i]\<close>. The \<open>forEach\<close> visits the
  indices of \<open>elementsRef.current\<close> in order, skips a handle that is \<open>null\<close>, and stops
  at the first call that throws.
\<close>

definition charAt :: "jsstring \<Rightarrow> nat \<Rightarrow> jsstring option" where
  "charAt s i = (if i < length s then Some [s ! i] else None)"

fun forEach_update :: "props \<Rightarrow> jsstring \<Rightarrow> nat list \<Rightarrow> widget \<Rightarrow> error + widget" where
  "forEach_update p pastedValue [] w = Inr w"
| "forEach_update p pastedValue (index # rest) w =
     (case getCell w index of
        None \<Rightarrow> forEach_update p pastedValue rest w
      | Some el \<Rightarrow>
          (case update p index (charAt pastedValue index) True el w of
             Inl e \<Rightarrow> Inl e
           | Inr (el', w') \<Rightarrow> forEach_update p pastedValue rest (putCell index el' w')))"

definition handlePaste :: "props \<Rightarrow> jsstring \<Rightarrow> widget \<Rightarrow> error + widget" where
  "handlePaste p pastedValue w =
     (if length pastedValue \<noteq> length_prop p then Inr w
      else forEach_update p pastedValue [0..<length (elementsRef w)] w)"

section \<open>Events\<close>

text \<open>
  The handlers of the cell rendered at index \<open>i\<close>: \<open>handleChange\<close> (lines 156 to 158),
  \<open>handleKeyDown\<close> (lines 163 to 168) and the cell's \<open>handlePaste\<close> (lines 187 to 191),
  whose \<open>onPaste\<close> is supplied to the cell at index 0 only.
\<close>

definition handleChange :: "props \<Rightarrow> nat \<Rightarrow> jsstring \<Rightarrow> widget \<Rightarrow> error + widget" where
  "handleChange p i raw w =
     (case getCell w i of
        None \<Rightarrow> Inr w
      | Some c \<Rightarrow>
          (case update p i (Some raw) False c w of
             Inl e \<Rightarrow> Inl e
           | Inr (c', w') \<Rightarrow> Inr (putCell i c' w')))"

definition handleKeyDown :: "props \<Rightarrow> nat \<Rightarrow> nat \<Rightarrow> widget \<Rightarrow> widget" where
  "handleKeyDown p i keyCode w =
     (case getCell w i of
        None \<Rightarrow> w
      | Some c \<Rightarrow> if keyCode = 8 \<and> cell_value c = [] then handleBackspace p i w else w)"

definition PinItem_handlePaste :: "props \<Rightarrow> nat \<Rightarrow> jsstring \<Rightarrow> widget \<Rightarrow> error + widget" where
  "PinItem_handlePaste p i pastedValue w = (if i = 0 then handlePaste p pastedValue w else Inr w)"

text \<open>
  A pending timer elapses: it leaves the pending list and its closure runs. A timer
  that was cleared is not pending and does nothing. \<open>setShowSecret\<close> on a cell that is
  gone does nothing.
\<close>

fun runAction :: "props \<Rightarrow> nat \<Rightarrow> timer_action \<Rightarrow> widget \<Rightarrow> widget" where
  "runAction p i (HideSecret val) w =
     (case getCell w i of
        None \<Rightarrow> w
      | Some c \<Rightarrow> putCell i (c\<lparr>showSecret := (val \<noteq> None \<and> val \<noteq> Some [])\<rparr>) w)"
| "runAction p i (Notify validated isPasting) w = onItemChange p validated isPasting i w"

definition fire :: "props \<Rightarrow> timer \<Rightarrow> widget \<Rightarrow> widget" where
  "fire p x w =
     (if x \<in> set (timers w)
      then runAction p (owner x) (action x) (w\<lparr>timers := remove1 x (timers w)\<rparr>)
      else w)"

text \<open>The next turn of the event loop: the pending timers of delay 0 elapse in the order
  they were set.\<close>

definition runDeferred :: "props \<Rightarrow> widget \<Rightarrow> widget" where
  "runDeferred p w = foldl (\<lambda>w' x. fire p x w') w (filter (\<lambda>x. delay x = 0) (timers w))"

section \<open>The first render\<close>

text \<open>
  The first render of a \<open>PinItem\<close> (PinItem.tsx, lines 95 to 102). The initialiser of
  \<open>useState\<close> at line 95 runs \<open>validateValue(initialValue)\<close> at once, before line 198 has
  initialised the \<open>const setSecretDelayed\<close>: with a secret delay that is not 0 the call
  of \<open>setSecretDelayed\<close> in \<open>validateValue\<close> throws a \<open>ReferenceError\<close>. Otherwise the cell
  starts with the validated initial value, \<open>showSecret\<close> as \<open>secret\<close>, and no timer. On
  every later call \<open>setSecretDelayed\<close> is initialised, and \<open>validateValue\<close> is as above.
\<close>

definition mountItem :: "props \<Rightarrow> jsstring \<Rightarrow> error + cell" where
  "mountItem p initialValue =
     (if secretDelay p \<noteq> 0 then Inl ReferenceError
      else case validateValue_result p (Some initialValue) of
             Inl e \<Rightarrow> Inl e
           | Inr v \<Rightarrow>
               Inr \<lparr>cell_value = v, showSecret = secret p, secretTimeoutRef = None,
                    inputTimeoutRef = None, inputRef = True\<rparr>)"





section \<open>Pending timers by kind\<close>

text \<open>The pending notifications, and the pending hide timers of one cell.\<close>

definition isNotify :: "timer \<Rightarrow> bool" where
  "isNotify x = (case action x of Notify v b \<Rightarrow> True | HideSecret val \<Rightarrow> False)"

definition secretTimers :: "nat \<Rightarrow> widget \<Rightarrow> timer list" where
  "secretTimers i w =
     filter (\<lambda>x. owner x = i \<and> (case action x of HideSecret val \<Rightarrow> True | Notify v b \<Rightarrow> False))
       (timers w)"

section \<open>Characters that a mode accepts, and states that are at rest\<close>

text \<open>
  A pasted character is valid when \<open>validateValue\<close> returns one code unit for it;
  \<open>validatedChar\<close> is that result. A widget is at rest when \<open>valuesRef\<close> and
  \<open>elementsRef\<close> have \<open>length\<close> entries, every cell is mounted, the timer id a cell
  remembers in \<open>secretTimeoutRef\<close> is older than the next id the window gives out, and
  no timer of delay 0 is pending.
\<close>

definition validChar :: "props \<Rightarrow> jschar \<Rightarrow> bool" where
  "validChar p ch =
     (case validateValue_result p (Some [ch]) of Inr v \<Rightarrow> length v = 1 | Inl e \<Rightarrow> False)"

definition validatedChar :: "props \<Rightarrow> jschar \<Rightarrow> jsstring" where
  "validatedChar p ch =
     (case validateValue_result p (Some [ch]) of Inr v \<Rightarrow> v | Inl e \<Rightarrow> [])"

definition quiescent :: "props \<Rightarrow> widget \<Rightarrow> bool" where
  "quiescent p w =
     (length (valuesRef w) = length_prop p \<and> length (elementsRef w) = length_prop p
      \<and> list_all (\<lambda>e. case e of
                         None \<Rightarrow> False
                       | Some c \<Rightarrow> (case secretTimeoutRef c of
                                      None \<Rightarrow> True
                                    | Some t \<Rightarrow> t < nextTimer w))
           (elementsRef w)
      \<and> list_all (\<lambda>x. delay x \<noteq> 0) (timers w))"

section \<open>Example configurations\<close>

text \<open>
  A numeric widget of length 4 with both callbacks, the same widget in regex mode,
  with a validator that doubles its input, and with a secret delay of 500 ms; a cell
  that is empty, one that is empty and masked, and one that holds a character; a widget
  of four empty cells, one that holds the pin 1234, one of four masked cells, and that
  one after the keystroke \<open>a\<close> in its first cell; a widget that is asked to focus its
  first cell on mount, a widget whose first handle is absent, and the widget that the
  first render with the initial value 12 gives.
\<close>

definition numericProps :: props where
  "numericProps =
     \<lparr>length_prop = 4, type_prop = ''numeric'', validate = None,
      regexCriteria = default_regexCriteria, secret = False, secretDelay = 0,
      disabled = False, focus_prop = False, onChange = True, onComplete = True,
      unicodeUpper = (\<lambda>s. s)\<rparr>"

definition regexProps :: props where
  "regexProps = numericProps\<lparr>type_prop := ''custom''\<rparr>"

definition doublingProps :: props where
  "doublingProps =
     numericProps\<lparr>validate := Some (\<lambda>r. case r of None \<Rightarrow> [] | Some s \<Rightarrow> s @ s)\<rparr>"

definition secretProps :: props where
  "secretProps = numericProps\<lparr>secret := True, secretDelay := 500\<rparr>"


definition emptyCell :: cell where
  "emptyCell =
     \<lparr>cell_value = [], showSecret = False, secretTimeoutRef = None, inputTimeoutRef = None,
      inputRef = True\<rparr>"

definition maskedCell :: cell where
  "maskedCell = emptyCell\<lparr>showSecret := True\<rparr>"

definition filledCell :: "jschar \<Rightarrow> cell" where
  "filledCell ch = emptyCell\<lparr>cell_value := [ch]\<rparr>"

definition widget4 :: widget where
  "widget4 =
     \<lparr>valuesRef = [[], [], [], []],
      elementsRef = [Some emptyCell, Some emptyCell, Some emptyCell, Some emptyCell],
      activeElement = None, timers = [], nextTimer = 1, calls = []\<rparr>"

definition widget1234 :: widget where
  "widget1234 =
     \<lparr>valuesRef = [[0x31], [0x32], [0x33], [0x34]],
      elementsRef = [Some (filledCell 0x31), Some (filledCell 0x32), Some (filledCell 0x33),
                     Some (filledCell 0x34)],
      activeElement = Some 3, timers = [], nextTimer = 9, calls = []\<rparr>"

definition secretWidget4 :: widget where
  "secretWidget4 =
     widget4\<lparr>elementsRef := [Some maskedCell, Some maskedCell, Some maskedCell, Some maskedCell]\<rparr>"

definition afterKeystroke :: widget where
  "afterKeystroke =
     widget4\<lparr>elementsRef := [Some (emptyCell\<lparr>secretTimeoutRef := Some 1\<rparr>), Some maskedCell,
                              Some maskedCell, Some maskedCell],
             timers := [\<lparr>timer_id = 1, owner = 0, delay = 500, action = HideSecret (Some [0x61])\<rparr>],
             nextTimer := 2\<rparr>"



section \<open>What a call of validateValue and of update leaves unchanged\<close>

lemma setSecretDelayed_frame:
  "setSecretDelayed p i val c w = (c', w') \<Longrightarrow>
     cell_value c' = cell_value c \<and> inputRef c' = inputRef c \<and> inputTimeoutRef c' = inputTimeoutRef c
     \<and> showSecret c' = False
     \<and> valuesRef w' = valuesRef w \<and> elementsRef w' = elementsRef w
     \<and> activeElement w' = activeElement w \<and> calls w' = calls w"
  by (auto simp: setSecretDelayed_def setTimeout_def clearTimeout_def Let_def
           split: option.splits if_splits)

lemma setSecretDelayed_timers:
  "setSecretDelayed p i val c w = (c', w') \<Longrightarrow>
     timers w' = filter (\<lambda>x. case secretTimeoutRef c of None \<Rightarrow> True
                               | Some t \<Rightarrow> t = 0 \<or> timer_id x \<noteq> t) (timers w)
                 @ [\<lparr>timer_id = nextTimer w, owner = i, delay = secretDelay p,
                     action = HideSecret val\<rparr>]
     \<and> nextTimer w' = Suc (nextTimer w) \<and> secretTimeoutRef c' = Some (nextTimer w)"
  by (auto simp: setSecretDelayed_def setTimeout_def clearTimeout_def Let_def
           split: option.splits if_splits)

lemma validateValue_Inr:
  assumes "validateValue_result p raw = Inr v"
  shows "validateValue p i raw c w =
           Inr (v, if secretDelay p \<noteq> 0 then setSecretDelayed p i raw c w else (c, w))"
  using assms by (simp add: validateValue_def split: prod.splits)

lemma validateValue_frame:
  assumes "validateValue p i raw c w = Inr (v, c1, w1)"
  shows "validateValue_result p raw = Inr v
     \<and> cell_value c1 = cell_value c \<and> inputRef c1 = inputRef c \<and> inputTimeoutRef c1 = inputTimeoutRef c
     \<and> valuesRef w1 = valuesRef w \<and> elementsRef w1 = elementsRef w
     \<and> activeElement w1 = activeElement w \<and> calls w1 = calls w"
proof (cases "secretDelay p \<noteq> 0")
  case True
  obtain c' w' where s: "setSecretDelayed p i raw c w = (c', w')" by fastforce
  from assms True s have "validateValue_result p raw = Inr v" "c1 = c'" "w1 = w'"
    by (auto simp: validateValue_def split: sum.splits)
  with setSecretDelayed_frame[OF s] show ?thesis by simp
next
  case False
  with assms show ?thesis by (auto simp: validateValue_def split: sum.splits)
qed

lemma validateValue_result_Some: "\<exists>v. validateValue_result p (Some raw) = Inr v"
  by (simp add: validateValue_result_def Let_def split: option.splits)

lemma validateValue_notifications:
  assumes "validateValue p i raw c w = Inr (v, c1, w1)"
  shows "set (filter isNotify (timers w1)) \<subseteq> set (filter isNotify (timers w))"
proof (cases "secretDelay p \<noteq> 0")
  case True
  obtain c' w' where s: "setSecretDelayed p i raw c w = (c', w')" by fastforce
  from assms True s have "w1 = w'"
    by (auto simp: validateValue_def split: sum.splits)
  with setSecretDelayed_timers[OF s] show ?thesis by (auto simp: isNotify_def)
next
  case False
  with assms show ?thesis by (auto simp: validateValue_def split: sum.splits)
qed

lemma update_value:
  assumes "validateValue_result p (Some raw) = Inr v" and "length v < 2"
  shows "\<exists>c' w'. update p i (Some raw) isPasting c w = Inr (c', w') \<and> cell_value c' = v"
proof -
  obtain c1 w1 where v: "validateValue p i (Some raw) c w = Inr (v, c1, w1)"
    using validateValue_Inr[OF assms(1), of i c w] by (metis surj_pair)
  from validateValue_frame[OF v] have "cell_value c1 = cell_value c" by simp
  with v assms(2) show ?thesis
    by (auto simp: update_def setTimeout_def Let_def)
qed

lemma valuesRef_onItemChange:
  "valuesRef (onItemChange p v isPasting index w) = assign (valuesRef w) index v"
  by (simp add: onItemChange_def Let_def focusCell_def focusInput_def callOnChange_def
        callOnComplete_def split: option.splits)

lemma length_concat_units:
  "list_all (\<lambda>s. length s = 1) xs \<Longrightarrow> length (concat xs) = length xs"
  by (induction xs) auto

lemma units_nonempty:
  "list_all (\<lambda>s. length s \<le> 1) xs \<Longrightarrow> list_all (\<lambda>s. s \<noteq> []) xs
     \<Longrightarrow> list_all (\<lambda>s. length s = 1) (xs :: 'a list list)"
proof (induction xs)
  case Nil
  then show ?case by simp
next
  case (Cons a xs)
  then have "length a \<le> 1" "a \<noteq> []" by simp_all
  then have "length a = 1" by (cases a) auto
  with Cons show ?case by simp
qed

lemma secretTimers_putCell: "secretTimers i (putCell j c w) = secretTimers i w"
  by (simp add: secretTimers_def putCell_def)

section \<open>Validation of one keystroke\<close>

text \<open>
  C2. In numeric mode with no custom validator, \<open>validateValue\<close> applied to a raw input
  of at most one code unit returns the input unchanged when it is one unit whose code
  lies in 0x30 to 0x39, and the empty string otherwise (beside its effect on the secret
  delay); it returns the non-empty input exactly for a digit. A keystroke therefore
  leaves the digit in the cell, and leaves the cell empty when it is not a digit.
\<close>

theorem validateValue_numeric:
  assumes "validate p = None" and "type_prop p = ''numeric''" and "length raw \<le> 1"
  shows "validateValue p i (Some raw) c w =
           Inr (if length raw = 1 \<and> 0x30 \<le> unat (hd raw) \<and> unat (hd raw) \<le> 0x39
                then raw else [],
                if secretDelay p \<noteq> 0 then setSecretDelayed p i (Some raw) c w else (c, w))
         \<and> (((\<exists>st. validateValue p i (Some raw) c w = Inr (raw, st)) \<and> raw \<noteq> []) =
            (length raw = 1 \<and> 0x30 \<le> unat (hd raw) \<and> unat (hd raw) \<le> 0x39))
         \<and> validateValue_result p (Some raw) =
           Inr (if length raw = 1 \<and> 0x30 \<le> unat (hd raw) \<and> unat (hd raw) \<le> 0x39
                then raw else [])
         \<and> ((validateValue_result p (Some raw) = Inr raw \<and> raw \<noteq> []) =
            (length raw = 1 \<and> 0x30 \<le> unat (hd raw) \<and> unat (hd raw) \<le> 0x39))
         \<and> (\<exists>c' w'. update p i (Some raw) False c w = Inr (c', w')
               \<and> cell_value c' =
                   (if length raw = 1 \<and> 0x30 \<le> unat (hd raw) \<and> unat (hd raw) \<le> 0x39
                    then raw else []))"
proof -
  let ?D = "length raw = 1 \<and> 0x30 \<le> unat (hd raw) \<and> unat (hd raw) \<le> 0x39"
  let ?v = "if ?D then raw else []"
  have len: "raw \<noteq> [] \<Longrightarrow> length raw = 1"
    using assms(3) by (cases raw) auto
  have r: "validateValue_result p (Some raw) = Inr ?v"
    using assms(1,2) len by (simp add: validateValue_result_def Let_def)
  have e: "(validateValue_result p (Some raw) = Inr raw \<and> raw \<noteq> []) = ?D"
    using r len by auto
  have vv: "validateValue p i (Some raw) c w =
              Inr (?v, if secretDelay p \<noteq> 0 then setSecretDelayed p i (Some raw) c w else (c, w))"
    by (rule validateValue_Inr[OF r])
  have e2: "((\<exists>st. validateValue p i (Some raw) c w = Inr (raw, st)) \<and> raw \<noteq> []) = ?D"
    unfolding vv using len by auto
  have lv: "length ?v < 2" using assms(3) by simp
  note u = update_value[OF r lv, of i False c w]
  from vv e2 r e u show ?thesis by blast
qed

theorem validateValue_numeric_witness:
  "validate numericProps = None \<and> type_prop numericProps = ''numeric''
   \<and> length [0x35 :: jschar] \<le> 1 \<and> length [0x61 :: jschar] \<le> 1
   \<and> validateValue numericProps 0 (Some [0x35]) emptyCell widget4 = Inr ([0x35], emptyCell, widget4)
   \<and> validateValue numericProps 0 (Some [0x61]) emptyCell widget4 = Inr ([], emptyCell, widget4)
   \<and> validateValue_result numericProps (Some [0x35]) = Inr [0x35]
   \<and> validateValue_result numericProps (Some [0x61]) = Inr []
   \<and> (\<exists>c' w'. update numericProps 0 (Some [0x35]) False emptyCell widget4 = Inr (c', w')
         \<and> cell_value c' = [0x35])
   \<and> (\<exists>c' w'. update numericProps 0 (Some [0x61]) False emptyCell widget4 = Inr (c', w')
         \<and> cell_value c' = [])"
proof -
  have h: "validate numericProps = None" "type_prop numericProps = ''numeric''"
    by (simp_all add: numericProps_def)
  have l: "length [0x35 :: jschar] \<le> 1" "length [0x61 :: jschar] \<le> 1" by simp_all
  have d: "secretDelay numericProps = 0" by (simp add: numericProps_def)
  from validateValue_numeric[OF h l(1), of 0 emptyCell widget4]
       validateValue_numeric[OF h l(2), of 0 emptyCell widget4] h l
  show ?thesis by (simp add: d)
qed

text \<open>
  C3. In regex mode with the default expression and no custom validator,
  \<open>validateValue\<close> applied to a single code unit returns it in upper case when it is an
  ASCII letter or digit (a lower-case letter moves down by 0x20, anything else stays),
  and the empty string for every other unit. A keystroke therefore leaves the
  upper-case character in the cell, or empties the cell.
\<close>

theorem validateValue_regex:
  assumes "validate p = None" and "type_prop p \<noteq> ''numeric''"
    and "regexCriteria p = default_regexCriteria"
  shows "validateValue p i (Some [ch]) c w =
           Inr (if (0x61 \<le> unat ch \<and> unat ch \<le> 0x7A) \<or> (0x41 \<le> unat ch \<and> unat ch \<le> 0x5A)
                   \<or> (0x30 \<le> unat ch \<and> unat ch \<le> 0x39)
                then [if 0x61 \<le> unat ch \<and> unat ch \<le> 0x7A then ch - 0x20 else ch]
                else [],
                if secretDelay p \<noteq> 0 then setSecretDelayed p i (Some [ch]) c w else (c, w))
         \<and> validateValue_result p (Some [ch]) =
           Inr (if (0x61 \<le> unat ch \<and> unat ch \<le> 0x7A) \<or> (0x41 \<le> unat ch \<and> unat ch \<le> 0x5A)
                   \<or> (0x30 \<le> unat ch \<and> unat ch \<le> 0x39)
                then [if 0x61 \<le> unat ch \<and> unat ch \<le> 0x7A then ch - 0x20 else ch]
                else [])
         \<and> (\<exists>c' w'. update p i (Some [ch]) False c w = Inr (c', w')
               \<and> cell_value c' =
                   (if (0x61 \<le> unat ch \<and> unat ch \<le> 0x7A) \<or> (0x41 \<le> unat ch \<and> unat ch \<le> 0x5A)
                       \<or> (0x30 \<le> unat ch \<and> unat ch \<le> 0x39)
                    then [if 0x61 \<le> unat ch \<and> unat ch \<le> 0x7A then ch - 0x20 else ch]
                    else []))"
proof -
  let ?A = "(0x61 \<le> unat ch \<and> unat ch \<le> 0x7A) \<or> (0x41 \<le> unat ch \<and> unat ch \<le> 0x5A)
                   \<or> (0x30 \<le> unat ch \<and> unat ch \<le> 0x39)"
  let ?v = "if ?A then [if 0x61 \<le> unat ch \<and> unat ch \<le> 0x7A then ch - 0x20 else ch] else []"
  have r: "validateValue_result p (Some [ch]) = Inr ?v"
    using assms
    by (auto simp: validateValue_result_def default_regexCriteria_def isAlnum_def Let_def
                   toUpperCase_def asciiUpper_def)
  have vv: "validateValue p i (Some [ch]) c w =
              Inr (?v, if secretDelay p \<noteq> 0 then setSecretDelayed p i (Some [ch]) c w else (c, w))"
    by (rule validateValue_Inr[OF r])
  have lv: "length ?v < 2" by simp
  note u = update_value[OF r lv, of i False c w]
  from vv r u show ?thesis by blast
qed

theorem validateValue_regex_witness:
  "validate regexProps = None \<and> type_prop regexProps \<noteq> ''numeric''
   \<and> regexCriteria regexProps = default_regexCriteria
   \<and> validateValue regexProps 0 (Some [0x61]) emptyCell widget4 = Inr ([0x41], emptyCell, widget4)
   \<and> validateValue regexProps 0 (Some [0x5A]) emptyCell widget4 = Inr ([0x5A], emptyCell, widget4)
   \<and> validateValue regexProps 0 (Some [0x37]) emptyCell widget4 = Inr ([0x37], emptyCell, widget4)
   \<and> validateValue regexProps 0 (Some [0x2D]) emptyCell widget4 = Inr ([], emptyCell, widget4)
   \<and> (\<exists>c' w'. update regexProps 0 (Some [0x61]) False emptyCell widget4 = Inr (c', w')
         \<and> cell_value c' = [0x41])
   \<and> (\<exists>c' w'. update regexProps 0 (Some [0x2D]) False (filledCell 0x41) widget4 = Inr (c', w')
         \<and> cell_value c' = [])"
proof -
  have h: "validate regexProps = None" "type_prop regexProps \<noteq> ''numeric''"
    "regexCriteria regexProps = default_regexCriteria"
    by (simp_all add: regexProps_def numericProps_def)
  have d: "secretDelay regexProps = 0" by (simp add: regexProps_def numericProps_def)
  from validateValue_regex[OF h, of 0 "0x61" emptyCell widget4]
       validateValue_regex[OF h, of 0 "0x5A" emptyCell widget4]
       validateValue_regex[OF h, of 0 "0x37" emptyCell widget4]
       validateValue_regex[OF h, of 0 "0x2D" emptyCell widget4]
       validateValue_regex[OF h, of 0 "0x2D" "filledCell 0x41" widget4] h
  show ?thesis by (simp add: d)
qed

section \<open>The update of a cell\<close>

text \<open>
  C7, as amended. A call \<open>update(raw, isPasting)\<close> with a string always returns. If the
  validated value differs from the cell's value or \<open>isPasting\<close> holds, and the validated
  value has fewer than two code units, the cell takes the validated value and the last
  pending timer is a new one of delay 0 that, when it elapses, runs
  \<open>onItemChange(validated, isPasting, i)\<close>. Otherwise (the validated value equals the
  cell's value and the call is no paste, or the validated value has two or more code
  units) the cell keeps its value and no notification is added.
\<close>

theorem update_adopts:
  shows "\<exists>v c' w'. validateValue_result p (Some raw) = Inr v
           \<and> update p i (Some raw) isPasting c w = Inr (c', w')
           \<and> (if (v \<noteq> cell_value c \<or> isPasting) \<and> length v < 2
               then cell_value c' = v
                 \<and> timers w' \<noteq> []
                 \<and> last (timers w') =
                      \<lparr>timer_id = nextTimer w' - 1, owner = i, delay = 0,
                       action = Notify v isPasting\<rparr>
                 \<and> inputTimeoutRef c' = Some (nextTimer w' - 1)
                 \<and> fire p (last (timers w')) w' =
                      onItemChange p v isPasting i
                        (w'\<lparr>timers := remove1 (last (timers w')) (timers w')\<rparr>)
               else cell_value c' = cell_value c
                 \<and> inputTimeoutRef c' = inputTimeoutRef c
                 \<and> set (filter isNotify (timers w')) \<subseteq> set (filter isNotify (timers w)))"
proof -
  obtain v where v: "validateValue_result p (Some raw) = Inr v"
    using validateValue_result_Some by blast
  obtain c1 w1 where vv: "validateValue p i (Some raw) c w = Inr (v, c1, w1)"
    using validateValue_Inr[OF v, of i c w] by (metis surj_pair)
  note fr = validateValue_frame[OF vv] and nt = validateValue_notifications[OF vv]
  show ?thesis
  proof (cases "(v \<noteq> cell_value c \<or> isPasting) \<and> length v < 2")
    case True
    let ?x = "\<lparr>timer_id = nextTimer w1, owner = i, delay = 0, action = Notify v isPasting\<rparr>"
    let ?w = "w1\<lparr>timers := timers w1 @ [?x], nextTimer := Suc (nextTimer w1)\<rparr>"
    let ?c = "c1\<lparr>cell_value := v, inputTimeoutRef := Some (nextTimer w1)\<rparr>"
    from True vv have u: "update p i (Some raw) isPasting c w = Inr (?c, ?w)"
      by (auto simp: update_def setTimeout_def)
    have "fire p (last (timers ?w)) ?w =
            onItemChange p v isPasting i (?w\<lparr>timers := remove1 (last (timers ?w)) (timers ?w)\<rparr>)"
      by (simp add: fire_def)
    with v u True show ?thesis by simp
  next
    case False
    from False vv have u: "update p i (Some raw) isPasting c w = Inr (c1, w1)"
      by (auto simp: update_def)
    with v False fr nt show ?thesis by auto
  qed
qed

theorem update_adopts_witness:
  "update numericProps 0 (Some [0x37]) False emptyCell widget4 =
     Inr (emptyCell\<lparr>cell_value := [0x37], inputTimeoutRef := Some 1\<rparr>,
          widget4\<lparr>timers := [\<lparr>timer_id = 1, owner = 0, delay = 0, action = Notify [0x37] False\<rparr>],
                  nextTimer := 2\<rparr>)
   \<and> update numericProps 0 (Some []) False emptyCell widget4 = Inr (emptyCell, widget4)"
  using update_adopts[of numericProps "[0x37]" 0 False emptyCell widget4]
  by (simp add: update_def validateValue_def validateValue_result_def numericProps_def
        emptyCell_def widget4_def setTimeout_def Let_def)

text \<open>
  C7 as stated fails: with a validator that doubles its input, the validated value of
  \<open>"1"\<close> is \<open>"11"\<close>, which differs from the value of an empty cell, and yet the cell and
  the pending timers are unchanged, for a keystroke and for a paste.
\<close>

theorem update_two_units_counterexample:
  "validateValue_result doublingProps (Some [0x31]) = Inr [0x31, 0x31]
   \<and> [0x31, 0x31] \<noteq> cell_value emptyCell
   \<and> update doublingProps 0 (Some [0x31]) False emptyCell widget4 = Inr (emptyCell, widget4)
   \<and> update doublingProps 0 (Some [0x31]) True emptyCell widget4 = Inr (emptyCell, widget4)"
  by (simp add: update_def validateValue_def validateValue_result_def doublingProps_def
        numericProps_def emptyCell_def)

section \<open>Change notifications\<close>

text \<open>
  C4. A change notification from cell \<open>i\<close> with a value of exactly one code unit: when
  \<open>i < length - 1\<close>, the focus moves to cell \<open>i + 1\<close> (which is mounted and enabled), and
  every external callback of this event gets the current index \<open>i + 1\<close>; when \<open>i\<close> is the
  last index, the focus stays where it is and the callbacks get the index \<open>i\<close>.
\<close>

theorem onItemChange_focus:
  assumes "length v = 1"
  shows "(int i < int (length_prop p) - 1 \<longrightarrow>
            (\<forall>c. getCell w (i + 1) = Some c \<and> inputRef c \<and> \<not> disabled p \<longrightarrow>
               activeElement (onItemChange p v isPasting i w) = Some (i + 1))
          \<and> calls (onItemChange p v isPasting i w) =
               calls w
               @ (if \<not> isPasting \<and> onChange p
                  then [OnChange (concat (assign (valuesRef w) i v)) (i + 1)] else [])
               @ (if length (concat (assign (valuesRef w) i v)) = length_prop p
                     \<and> \<not> isPasting \<and> onComplete p
                  then [OnComplete (concat (assign (valuesRef w) i v)) (i + 1)] else []))
       \<and> (int i = int (length_prop p) - 1 \<longrightarrow>
            activeElement (onItemChange p v isPasting i w) = activeElement w
          \<and> calls (onItemChange p v isPasting i w) =
               calls w
               @ (if \<not> isPasting \<and> onChange p
                  then [OnChange (concat (assign (valuesRef w) i v)) i] else [])
               @ (if length (concat (assign (valuesRef w) i v)) = length_prop p \<and> onComplete p
                  then [OnComplete (concat (assign (valuesRef w) i v)) i] else []))"
  using assms
  by (auto simp: onItemChange_def Let_def focusCell_def focusInput_def callOnChange_def
        callOnComplete_def getCell_def split: option.splits)

theorem onItemChange_focus_witness:
  "length [0x35 :: jschar] = 1
   \<and> int 1 < int (length_prop numericProps) - 1
   \<and> getCell widget4 (1 + 1) = Some emptyCell \<and> inputRef emptyCell \<and> \<not> disabled numericProps
   \<and> activeElement (onItemChange numericProps [0x35] False 1 widget4) = Some 2
   \<and> calls (onItemChange numericProps [0x35] False 1 widget4) = [OnChange [0x35] 2]
   \<and> int 3 = int (length_prop numericProps) - 1
   \<and> activeElement (onItemChange numericProps [0x35] False 3 widget1234) = Some 3
   \<and> calls (onItemChange numericProps [0x35] False 3 widget1234) =
        [OnChange [0x31, 0x32, 0x33, 0x35] 3, OnComplete [0x31, 0x32, 0x33, 0x35] 3]"
proof -
  have l: "length [0x35 :: jschar] = 1" by simp
  have h: "int 1 < int (length_prop numericProps) - 1"
    "getCell widget4 (1 + 1) = Some emptyCell" "inputRef emptyCell" "\<not> disabled numericProps"
    "int 3 = int (length_prop numericProps) - 1"
    by (simp_all add: numericProps_def widget4_def getCell_def emptyCell_def)
  have v: "valuesRef widget4 = [[], [], [], []]" "calls widget4 = []"
    "valuesRef widget1234 = [[0x31], [0x32], [0x33], [0x34]]" "calls widget1234 = []"
    "activeElement widget1234 = Some 3"
    "onChange numericProps" "onComplete numericProps" "length_prop numericProps = 4"
    by (simp_all add: widget4_def widget1234_def numericProps_def)
  from onItemChange_focus[OF l, of 1 numericProps widget4 False]
       onItemChange_focus[OF l, of 3 numericProps widget1234 False] h l
  show ?thesis by (simp add: v assign_def)
qed

text \<open>
  C10. When a change notification that is no paste has been processed and every slot
  of \<open>valuesRef\<close> is non-empty afterwards, \<open>onComplete\<close> is called with the joined pin, after
  \<open>onChange\<close>. Nothing is asked of the slots before the notification: a keystroke that
  overwrites one character of a complete pin calls \<open>onComplete\<close> again.
\<close>

theorem onItemChange_complete:
  assumes "length (valuesRef w) = length_prop p" and "index < length_prop p"
    and "list_all (\<lambda>s. length s \<le> 1) (valuesRef w)" and "length v \<le> 1"
    and "list_all (\<lambda>s. s \<noteq> []) (valuesRef (onItemChange p v False index w))"
    and "onComplete p"
  shows "valuesRef (onItemChange p v False index w) = (valuesRef w)[index := v]
         \<and> calls (onItemChange p v False index w) =
             calls w
             @ (if onChange p
                then [OnChange (concat ((valuesRef w)[index := v]))
                        (if index + 1 < length_prop p then index + 1 else index)]
                else [])
             @ [OnComplete (concat ((valuesRef w)[index := v]))
                  (if index + 1 < length_prop p then index + 1 else index)]"
proof -
  have vr: "valuesRef (onItemChange p v False index w) = (valuesRef w)[index := v]"
    using assms(1,2) by (simp add: valuesRef_onItemChange assign_def)
  have le1: "list_all (\<lambda>s. length s \<le> 1) ((valuesRef w)[index := v])"
    using assms(1,2,3,4) by (auto simp: list_all_length nth_list_update)
  have all1: "list_all (\<lambda>s. length s = 1) ((valuesRef w)[index := v])"
    using units_nonempty[OF le1] assms(5) by (simp only: vr)
  have len: "length (concat ((valuesRef w)[index := v])) = length_prop p"
    using length_concat_units[OF all1] assms(1) by simp
  have "length (((valuesRef w)[index := v]) ! index) = 1"
    using all1 assms(1,2) by (simp only: list_all_length length_list_update)
  then have v1: "length v = 1"
    using assms(1,2) by simp
  have as: "assign (valuesRef w) index v = (valuesRef w)[index := v]"
    using assms(1,2) by (simp add: assign_def)
  show ?thesis
  proof (cases "index + 1 < length_prop p")
    case True
    then have "int index < int (length_prop p) - 1" by simp
    with True v1 len as assms(6) show ?thesis
      by (simp add: onItemChange_def Let_def focusCell_def focusInput_def callOnChange_def
            callOnComplete_def split: option.splits)
  next
    case False
    then have "\<not> int index < int (length_prop p) - 1" by simp
    with False v1 len as assms(6) show ?thesis
      by (simp add: onItemChange_def Let_def focusCell_def focusInput_def callOnChange_def
            callOnComplete_def split: option.splits)
  qed
qed

theorem onItemChange_complete_witness:
  "length (valuesRef widget1234) = length_prop numericProps \<and> (1 :: nat) < length_prop numericProps
   \<and> list_all (\<lambda>s. length s \<le> 1) (valuesRef widget1234) \<and> length [0x39 :: jschar] \<le> 1
   \<and> list_all (\<lambda>s. s \<noteq> []) (valuesRef (onItemChange numericProps [0x39] False 1 widget1234))
   \<and> onComplete numericProps
   \<and> list_all (\<lambda>s. s \<noteq> []) (valuesRef widget1234)
   \<and> calls (onItemChange numericProps [0x39] False 1 widget1234) =
        [OnChange [0x31, 0x39, 0x33, 0x34] 2, OnComplete [0x31, 0x39, 0x33, 0x34] 2]"
proof -
  have v: "valuesRef widget1234 = [[0x31], [0x32], [0x33], [0x34]]" "calls widget1234 = []"
    "length_prop numericProps = 4" "onChange numericProps"
    by (simp_all add: widget1234_def numericProps_def)
  have h: "length (valuesRef widget1234) = length_prop numericProps"
    "(1 :: nat) < length_prop numericProps"
    "list_all (\<lambda>s. length s \<le> 1) (valuesRef widget1234)" "length [0x39 :: jschar] \<le> 1"
    "list_all (\<lambda>s. s \<noteq> []) (valuesRef (onItemChange numericProps [0x39] False 1 widget1234))"
    "onComplete numericProps"
    by (simp_all add: v valuesRef_onItemChange assign_def) (simp add: numericProps_def)
  from onItemChange_complete[OF h] h show ?thesis by (simp add: v)
qed

section \<open>Backspace\<close>

text \<open>
  C8. A backspace on an empty cell at an index \<open>i > 0\<close> moves the focus to cell \<open>i - 1\<close>
  (which is mounted and enabled) and changes nothing else, so no value of a cell or of
  \<open>valuesRef\<close>; a backspace on a cell that holds a character, or on the first cell,
  leaves the whole state as it is.
\<close>

theorem handleKeyDown_backspace:
  assumes "getCell w i = Some c"
  shows "(cell_value c = [] \<and> 0 < i \<longrightarrow>
            (\<forall>c'. getCell w (i - 1) = Some c' \<and> inputRef c' \<and> \<not> disabled p \<longrightarrow>
               handleKeyDown p i 8 w = w\<lparr>activeElement := Some (i - 1)\<rparr>)
          \<and> valuesRef (handleKeyDown p i 8 w) = valuesRef w
          \<and> elementsRef (handleKeyDown p i 8 w) = elementsRef w)
       \<and> (cell_value c \<noteq> [] \<or> i = 0 \<longrightarrow> handleKeyDown p i 8 w = w)"
  using assms
  by (auto simp: handleKeyDown_def handleBackspace_def focusCell_def focusInput_def
           split: option.splits)

theorem handleKeyDown_backspace_witness:
  "getCell widget4 2 = Some emptyCell \<and> cell_value emptyCell = [] \<and> (0 :: nat) < 2
   \<and> getCell widget4 (2 - 1) = Some emptyCell \<and> inputRef emptyCell \<and> \<not> disabled numericProps
   \<and> handleKeyDown numericProps 2 8 widget4 = widget4\<lparr>activeElement := Some 1\<rparr>
   \<and> getCell widget1234 2 = Some (filledCell 0x33) \<and> cell_value (filledCell 0x33) \<noteq> []
   \<and> handleKeyDown numericProps 2 8 widget1234 = widget1234
   \<and> getCell widget4 0 = Some emptyCell
   \<and> handleKeyDown numericProps 0 8 widget4 = widget4"
proof -
  have h: "getCell widget4 2 = Some emptyCell" "cell_value emptyCell = []" "(0 :: nat) < 2"
    "getCell widget4 (2 - 1) = Some emptyCell" "inputRef emptyCell" "\<not> disabled numericProps"
    "getCell widget1234 2 = Some (filledCell 0x33)" "cell_value (filledCell 0x33) \<noteq> []"
    "getCell widget4 0 = Some emptyCell"
    by (simp_all add: getCell_def widget4_def widget1234_def emptyCell_def filledCell_def
          numericProps_def)
  from handleKeyDown_backspace[OF h(1), of numericProps]
       handleKeyDown_backspace[OF h(7), of numericProps]
       handleKeyDown_backspace[OF h(9), of numericProps] h
  show ?thesis by simp
qed

section \<open>Paste\<close>

text \<open>One cell of the paste: its value, and the notification it leaves pending.\<close>

lemma validChar_result:
  "validChar p ch \<Longrightarrow> validateValue_result p (Some [ch]) = Inr (validatedChar p ch)
     \<and> length (validatedChar p ch) = 1"
  by (auto simp: validChar_def validatedChar_def split: sum.splits)

lemma validatedChar_numeric:
  assumes "validate p = None" and "type_prop p = ''numeric''" and "validChar p ch"
  shows "validatedChar p ch = [ch]"
  using assms
  by (auto simp: validChar_def validatedChar_def validateValue_result_def Let_def
           split: if_splits)

lemma validatedChar_regex:
  assumes "validate p = None" and "type_prop p \<noteq> ''numeric''"
    and "regexCriteria p = default_regexCriteria" and "validChar p ch"
  shows "validatedChar p ch = [asciiUpper ch]"
  using assms
  by (auto simp: validChar_def validatedChar_def validateValue_result_def Let_def
        default_regexCriteria_def toUpperCase_def isAlnum_def split: if_splits)

lemma concat_singletons: "concat (map (\<lambda>x. [g x]) xs) = map g xs"
  by (induction xs) auto

lemma update_paste_step:
  assumes v: "validateValue_result p (Some r) = Inr v" and l: "length v < 2"
    and ref: "\<And>t. secretTimeoutRef c = Some t \<Longrightarrow> t < n0"
    and z: "\<And>x. x \<in> set (timers w) \<Longrightarrow> delay x = 0 \<Longrightarrow> n0 \<le> timer_id x"
    and n: "n0 \<le> nextTimer w"
  shows "\<exists>c' w' m. update p i (Some r) True c w = Inr (c', w') \<and> cell_value c' = v
           \<and> valuesRef w' = valuesRef w \<and> elementsRef w' = elementsRef w
           \<and> activeElement w' = activeElement w \<and> calls w' = calls w
           \<and> n0 \<le> m \<and> m < nextTimer w'
           \<and> filter (\<lambda>x. delay x = 0) (timers w') =
               filter (\<lambda>x. delay x = 0) (timers w)
               @ [\<lparr>timer_id = m, owner = i, delay = 0, action = Notify v True\<rparr>]"
proof -
  obtain c1 w1 where vv: "validateValue p i (Some r) c w = Inr (v, c1, w1)"
    using validateValue_Inr[OF v, of i c w] by (metis surj_pair)
  note fr = validateValue_frame[OF vv]
  have z1: "filter (\<lambda>x. delay x = 0) (timers w1) = filter (\<lambda>x. delay x = 0) (timers w)
            \<and> nextTimer w \<le> nextTimer w1"
  proof (cases "secretDelay p \<noteq> 0")
    case True
    obtain c' w' where s: "setSecretDelayed p i (Some r) c w = (c', w')" by fastforce
    from vv True s have eq: "w1 = w'"
      by (auto simp: validateValue_def split: sum.splits)
    have "filter (\<lambda>x. delay x = 0)
            (filter (\<lambda>x. case secretTimeoutRef c of None \<Rightarrow> True
                          | Some t \<Rightarrow> t = 0 \<or> timer_id x \<noteq> t) (timers w))
          = filter (\<lambda>x. delay x = 0) (timers w)"
      unfolding filter_filter
    proof (rule filter_cong[OF refl])
      fix x assume "x \<in> set (timers w)"
      then show "((case secretTimeoutRef c of None \<Rightarrow> True
                   | Some t \<Rightarrow> t = 0 \<or> timer_id x \<noteq> t) \<and> delay x = 0) = (delay x = 0)"
        using ref z by (fastforce split: option.splits)
    qed
    with setSecretDelayed_timers[OF s] True show ?thesis by (simp add: eq)
  next
    case False
    with vv show ?thesis by (auto simp: validateValue_def split: sum.splits)
  qed
  let ?x = "\<lparr>timer_id = nextTimer w1, owner = i, delay = 0, action = Notify v True\<rparr>"
  let ?w = "w1\<lparr>timers := timers w1 @ [?x], nextTimer := Suc (nextTimer w1)\<rparr>"
  let ?c = "c1\<lparr>cell_value := v, inputTimeoutRef := Some (nextTimer w1)\<rparr>"
  from l vv have u: "update p i (Some r) True c w = Inr (?c, ?w)"
    by (auto simp: update_def setTimeout_def)
  have "filter (\<lambda>x. delay x = 0) (timers ?w) = filter (\<lambda>x. delay x = 0) (timers w) @ [?x]"
    using z1 by simp
  moreover have "n0 \<le> nextTimer w1" "nextTimer w1 < nextTimer ?w"
    using z1 n by simp_all
  ultimately show ?thesis using u fr
    by (intro exI[of _ ?c] exI[of _ ?w] exI[of _ "nextTimer w1"]) simp
qed

text \<open>The whole \<open>forEach\<close>, from index \<open>k\<close> on.\<close>

lemma forEach_paste:
  assumes "k \<le> n" and "length (elementsRef w) = n" and "length s = n"
    and cells: "\<And>j. k \<le> j \<Longrightarrow> j < n \<Longrightarrow>
            \<exists>c. getCell w j = Some c \<and> (\<forall>t. secretTimeoutRef c = Some t \<longrightarrow> t < n0)"
    and valid: "\<And>j. j < n \<Longrightarrow> validChar p (s ! j)"
    and z: "\<And>x. x \<in> set (timers w) \<Longrightarrow> delay x = 0 \<Longrightarrow> n0 \<le> timer_id x"
    and n: "n0 \<le> nextTimer w"
  shows "\<exists>w'. forEach_update p s [k..<n] w = Inr w'
          \<and> valuesRef w' = valuesRef w \<and> calls w' = calls w
          \<and> activeElement w' = activeElement w \<and> length (elementsRef w') = n
          \<and> (\<forall>j<k. getCell w' j = getCell w j)
          \<and> (\<forall>j. k \<le> j \<and> j < n \<longrightarrow>
                map_option cell_value (getCell w' j) = Some (validatedChar p (s ! j)))
          \<and> map (\<lambda>x. (owner x, action x)) (filter (\<lambda>x. delay x = 0) (timers w')) =
              map (\<lambda>x. (owner x, action x)) (filter (\<lambda>x. delay x = 0) (timers w))
              @ map (\<lambda>j. (j, Notify (validatedChar p (s ! j)) True)) [k..<n]"
  using assms
proof (induction "n - k" arbitrary: k w)
  case 0
  then have "k = n" by simp
  with "0.prems"(2) show ?case by auto
next
  case (Suc d)
  then have kn: "k < n" by simp
  from Suc.prems(4)[of k] kn obtain c where c: "getCell w k = Some c"
    and cref: "\<And>t. secretTimeoutRef c = Some t \<Longrightarrow> t < n0" by auto
  from Suc.prems(5)[OF kn] have v: "validateValue_result p (Some [s ! k]) = Inr (validatedChar p (s ! k))"
    and vl: "length (validatedChar p (s ! k)) < 2"
    using validChar_result by fastforce+
  from update_paste_step[OF v vl cref Suc.prems(6) Suc.prems(7), where i = k]
  obtain c' w' m where u: "update p k (Some [s ! k]) True c w = Inr (c', w')"
    and cv: "cell_value c' = validatedChar p (s ! k)"
    and fr: "valuesRef w' = valuesRef w" "elementsRef w' = elementsRef w"
      "activeElement w' = activeElement w" "calls w' = calls w"
    and m: "n0 \<le> m" "m < nextTimer w'"
    and zt: "filter (\<lambda>x. delay x = 0) (timers w') =
               filter (\<lambda>x. delay x = 0) (timers w)
               @ [\<lparr>timer_id = m, owner = k, delay = 0, action = Notify (validatedChar p (s ! k)) True\<rparr>]"
    by blast
  let ?w = "putCell k c' w'"
  have ch: "charAt s k = Some [s ! k]"
    using kn Suc.prems(3) by (simp add: charAt_def)
  have step: "forEach_update p s [k..<n] w = forEach_update p s [Suc k..<n] ?w"
    using kn c u ch by (simp add: upt_conv_Cons)
  have len: "length (elementsRef ?w) = n"
    using fr Suc.prems(2) by (simp add: putCell_def)
  have get: "getCell ?w j = (if j = k then Some c' else getCell w j)" for j
    using fr Suc.prems(2) kn by (simp add: getCell_def putCell_def)
  have cells': "\<exists>c. getCell ?w j = Some c \<and> (\<forall>t. secretTimeoutRef c = Some t \<longrightarrow> t < n0)"
    if "Suc k \<le> j" "j < n" for j
    using Suc.prems(4)[of j] that by (simp add: get)
  have z': "n0 \<le> timer_id x" if "x \<in> set (timers ?w)" "delay x = 0" for x
  proof -
    from that have "x \<in> set (filter (\<lambda>x. delay x = 0) (timers w'))"
      by (simp add: putCell_def)
    then show ?thesis unfolding zt using Suc.prems(6) m by auto
  qed
  have n': "n0 \<le> nextTimer ?w"
    using m by (simp add: putCell_def)
  have d: "d = n - Suc k" using Suc.hyps(2) by simp
  have "Suc k \<le> n" using kn by simp
  from Suc.hyps(1)[OF d this len Suc.prems(3) cells' Suc.prems(5) z' n']
  obtain w3 where r: "forEach_update p s [Suc k..<n] ?w = Inr w3"
    and f3: "valuesRef w3 = valuesRef ?w" "calls w3 = calls ?w"
      "activeElement w3 = activeElement ?w" "length (elementsRef w3) = n"
    and g3: "\<forall>j<Suc k. getCell w3 j = getCell ?w j"
    and v3: "\<forall>j. Suc k \<le> j \<and> j < n \<longrightarrow>
                map_option cell_value (getCell w3 j) = Some (validatedChar p (s ! j))"
    and z3: "map (\<lambda>x. (owner x, action x)) (filter (\<lambda>x. delay x = 0) (timers w3)) =
              map (\<lambda>x. (owner x, action x)) (filter (\<lambda>x. delay x = 0) (timers ?w))
              @ map (\<lambda>j. (j, Notify (validatedChar p (s ! j)) True)) [Suc k..<n]"
    by blast
  have a: "\<forall>j<k. getCell w3 j = getCell w j"
    using g3 by (simp add: get)
  have b: "\<forall>j. k \<le> j \<and> j < n \<longrightarrow>
             map_option cell_value (getCell w3 j) = Some (validatedChar p (s ! j))"
  proof (intro allI impI)
    fix j assume j: "k \<le> j \<and> j < n"
    show "map_option cell_value (getCell w3 j) = Some (validatedChar p (s ! j))"
    proof (cases "j = k")
      case True
      with g3 have "getCell w3 j = Some c'" by (simp add: get)
      with cv True show ?thesis by simp
    next
      case False
      with j v3 show ?thesis by simp
    qed
  qed
  have tw: "timers ?w = timers w'" by (simp add: putCell_def)
  have e: "map (\<lambda>x. (owner x, action x)) (filter (\<lambda>x. delay x = 0) (timers w3)) =
              map (\<lambda>x. (owner x, action x)) (filter (\<lambda>x. delay x = 0) (timers w))
              @ map (\<lambda>j. (j, Notify (validatedChar p (s ! j)) True)) [k..<n]"
    unfolding z3 tw zt using kn by (simp add: upt_conv_Cons)
  from step r f3 fr a b e show ?case by (simp add: putCell_def)
qed

text \<open>The turn of the event loop that follows: the notifications run in the order of the cells.\<close>

lemma onItemChange_timers_update:
  "onItemChange p v b i (w\<lparr>timers := T\<rparr>) = (onItemChange p v b i w)\<lparr>timers := T\<rparr>"
  by (simp add: onItemChange_def Let_def focusCell_def focusInput_def callOnChange_def
        callOnComplete_def getCell_def split: option.splits)

lemma onItemChange_frame:
  "timers (onItemChange p v b i w) = timers w"
  "elementsRef (onItemChange p v b i w) = elementsRef w"
  by (simp_all add: onItemChange_def Let_def focusCell_def focusInput_def callOnChange_def
        callOnComplete_def getCell_def split: option.splits)

lemma runAction_timers_update:
  "runAction p i a (w\<lparr>timers := T\<rparr>) = (runAction p i a w)\<lparr>timers := T\<rparr>"
  by (cases a) (simp_all add: onItemChange_timers_update getCell_def putCell_def split: option.splits)

lemma timers_runAction: "timers (runAction p i a w) = timers w"
  by (cases a) (simp_all add: onItemChange_frame putCell_def split: option.splits)

lemma foldl_run_timers_update:
  "foldl (\<lambda>w' x. runAction p (owner x) (action x) w') (w\<lparr>timers := T\<rparr>) xs =
     (foldl (\<lambda>w' x. runAction p (owner x) (action x) w') w xs)\<lparr>timers := T\<rparr>"
  by (induction xs arbitrary: w) (simp_all add: runAction_timers_update)

lemma timers_foldl_run:
  "timers (foldl (\<lambda>w' x. runAction p (owner x) (action x) w') w xs) = timers w"
  by (induction xs arbitrary: w) (simp_all add: timers_runAction)

lemma foldl_fire:
  assumes "distinct xs" and "set xs \<subseteq> set (timers w)"
  shows "foldl (\<lambda>w' x. fire p x w') w xs =
           (foldl (\<lambda>w' x. runAction p (owner x) (action x) w') w xs)
             \<lparr>timers := foldl (\<lambda>ts x. remove1 x ts) (timers w) xs\<rparr>"
  using assms
proof (induction xs arbitrary: w)
  case Nil
  then show ?case by simp
next
  case (Cons x xs)
  let ?w = "runAction p (owner x) (action x) (w\<lparr>timers := remove1 x (timers w)\<rparr>)"
  have f: "fire p x w = ?w"
    using Cons.prems(2) by (simp add: fire_def)
  have t: "timers ?w = remove1 x (timers w)"
    by (simp add: timers_runAction)
  have sub: "set xs \<subseteq> set (timers ?w)"
  proof
    fix y assume y: "y \<in> set xs"
    with Cons.prems have "y \<noteq> x" "y \<in> set (timers w)" by auto
    then show "y \<in> set (timers ?w)" unfolding t by (simp add: in_set_remove1)
  qed
  have d: "distinct xs" using Cons.prems(1) by simp
  have "foldl (\<lambda>w' x. fire p x w') w (x # xs) = foldl (\<lambda>w' x. fire p x w') ?w xs"
    by (simp only: foldl_Cons f)
  also have "\<dots> = (foldl (\<lambda>w' x. runAction p (owner x) (action x) w') ?w xs)
             \<lparr>timers := foldl (\<lambda>ts x. remove1 x ts) (timers ?w) xs\<rparr>"
    by (rule Cons.IH[OF d sub])
  also have "\<dots> = (foldl (\<lambda>w' x. runAction p (owner x) (action x) w') w (x # xs))
             \<lparr>timers := foldl (\<lambda>ts x. remove1 x ts) (timers w) (x # xs)\<rparr>"
    unfolding t by (simp add: runAction_timers_update foldl_run_timers_update)
  finally show ?case .
qed

lemma foldl_run_notify:
  assumes "map (\<lambda>x. (owner x, action x)) xs = map (\<lambda>j. (j, Notify (f j) True)) js"
  shows "foldl (\<lambda>w' x. runAction p (owner x) (action x) w') w xs =
           foldl (\<lambda>w' j. onItemChange p (f j) True j w') w js"
proof -
  have "foldl (\<lambda>w' x. runAction p (owner x) (action x) w') w xs =
          foldl (\<lambda>w' oa. runAction p (fst oa) (snd oa) w') w (map (\<lambda>x. (owner x, action x)) xs)"
    by (simp add: foldl_map)
  also have "\<dots> = foldl (\<lambda>w' j. onItemChange p (f j) True j w') w js"
    unfolding assms by (simp add: foldl_map)
  finally show ?thesis .
qed

lemma calls_paste_step:
  assumes "length v = 1"
  shows "calls (onItemChange p v True k W) =
           calls W @ (if \<not> int k < int (length_prop p) - 1
                         \<and> length (concat (assign (valuesRef W) k v)) = length_prop p
                         \<and> onComplete p
                      then [OnComplete (concat (assign (valuesRef W) k v)) k] else [])"
  using assms
  by (simp add: onItemChange_def Let_def focusCell_def focusInput_def callOnComplete_def
        split: option.splits)

lemma notify_prefix:
  assumes "length (valuesRef w) = length_prop p" and "k \<le> length_prop p"
    and "\<And>j. j < length_prop p \<Longrightarrow> length (f j) = 1"
  shows "valuesRef (foldl (\<lambda>w' j. onItemChange p (f j) True j w') w [0..<k]) =
           map f [0..<k] @ drop k (valuesRef w)
         \<and> elementsRef (foldl (\<lambda>w' j. onItemChange p (f j) True j w') w [0..<k]) = elementsRef w
         \<and> calls (foldl (\<lambda>w' j. onItemChange p (f j) True j w') w [0..<k]) =
             calls w @ (if k = length_prop p \<and> 0 < k \<and> onComplete p
                        then [OnComplete (concat (map f [0..<k])) (k - 1)] else [])"
  using assms(2)
proof (induction k)
  case 0
  then show ?case by simp
next
  case (Suc k)
  let ?F = "foldl (\<lambda>w' j. onItemChange p (f j) True j w') w [0..<k]"
  from Suc have kl: "k < length_prop p" by simp
  with Suc.IH have ih: "valuesRef ?F = map f [0..<k] @ drop k (valuesRef w)"
    "elementsRef ?F = elementsRef w" "calls ?F = calls w"
    by simp_all
  have fk: "length (f k) = 1" using assms(3) kl by simp
  have lenF: "length (valuesRef ?F) = length_prop p"
    using ih(1) assms(1) kl by simp
  have as: "assign (valuesRef ?F) k (f k) = map f [0..<Suc k] @ drop (Suc k) (valuesRef w)"
  proof -
    have "assign (valuesRef ?F) k (f k) = (valuesRef ?F)[k := f k]"
      using lenF kl by (simp add: assign_def)
    also have "\<dots> = map f [0..<k] @ (drop k (valuesRef w))[0 := f k]"
      unfolding ih(1) by (simp add: list_update_append)
    also have "drop k (valuesRef w) = valuesRef w ! k # drop (Suc k) (valuesRef w)"
      using assms(1) kl by (simp add: Cons_nth_drop_Suc)
    finally show ?thesis by simp
  qed
  have step: "foldl (\<lambda>w' j. onItemChange p (f j) True j w') w [0..<Suc k] =
                onItemChange p (f k) True k ?F"
    by simp
  have vr: "valuesRef (onItemChange p (f k) True k ?F) =
              map f [0..<Suc k] @ drop (Suc k) (valuesRef w)"
    by (simp only: valuesRef_onItemChange as)
  have er: "elementsRef (onItemChange p (f k) True k ?F) = elementsRef w"
    by (simp add: onItemChange_frame ih)
  have cl: "calls (onItemChange p (f k) True k ?F) =
              calls w @ (if Suc k = length_prop p \<and> onComplete p
                         then [OnComplete (concat (map f [0..<Suc k])) k] else [])"
  proof (cases "Suc k = length_prop p")
    case True
    then have ni: "\<not> int k < int (length_prop p) - 1" by simp
    have dr: "drop (Suc k) (valuesRef w) = []" using True assms(1) by simp
    have "list_all (\<lambda>s. length s = 1) (map f [0..<Suc k])"
      using assms(3) True by (simp add: list_all_iff)
    from length_concat_units[OF this]
    have len: "length (concat (map f [0..<Suc k])) = length_prop p"
      using True by simp
    show ?thesis
      unfolding calls_paste_step[OF fk] as dr ih(3) using ni True len by simp
  next
    case False
    with kl have lt: "int k < int (length_prop p) - 1" by linarith
    show ?thesis
      unfolding calls_paste_step[OF fk] ih(3) using lt False by simp
  qed
  show ?case
    unfolding step using vr er cl by auto
qed

lemma run_prefix:
  assumes zs: "map (\<lambda>x. (owner x, action x)) zs = map (\<lambda>j. (j, Notify (f j) True)) [0..<n]"
    and sub: "set zs \<subseteq> set (timers w)" and k: "k \<le> n"
  shows "foldl (\<lambda>w' x. fire p x w') w (take k zs) =
           (foldl (\<lambda>w' j. onItemChange p (f j) True j w') w [0..<k])
             \<lparr>timers := foldl (\<lambda>ts x. remove1 x ts) (timers w) (take k zs)\<rparr>"
proof -
  have "map fst (map (\<lambda>x. (owner x, action x)) zs) = [0..<n]"
    unfolding zs by (simp add: comp_def)
  then have "distinct (map fst (map (\<lambda>x. (owner x, action x)) zs))" by simp
  then have "distinct zs" by (metis distinct_map)
  then have d: "distinct (take k zs)" by simp
  have s: "set (take k zs) \<subseteq> set (timers w)"
    using sub by (meson set_take_subset subset_trans)
  have "map (\<lambda>x. (owner x, action x)) (take k zs) = take k (map (\<lambda>j. (j, Notify (f j) True)) [0..<n])"
    unfolding zs[symmetric] by (simp add: take_map)
  also have "\<dots> = map (\<lambda>j. (j, Notify (f j) True)) [0..<k]"
    using k by (simp add: take_map min_def)
  finally have m: "map (\<lambda>x. (owner x, action x)) (take k zs) =
                     map (\<lambda>j. (j, Notify (f j) True)) [0..<k]" .
  show ?thesis
    unfolding foldl_fire[OF d s] foldl_run_notify[OF m] ..
qed

text \<open>
  C1. Let \<open>length\<close> be positive (4 and 6 are), the widget at rest and \<open>onComplete\<close>
  supplied. Pasting into the first cell a string of \<open>length\<close> characters that are all
  valid in the active mode sets one notification per cell, in the order of the cells.
  When they have run, slot \<open>i\<close> of \<open>valuesRef\<close> and cell \<open>i\<close> hold the validated character
  of \<open>s[i]\<close>, and the callbacks were called exactly once: \<open>onComplete\<close> with the joined
  pin and the index \<open>length - 1\<close>. No callback is called while only the notifications
  before the last have run. The pin is \<open>s\<close> in numeric mode and \<open>s\<close> in upper case in
  the default regex mode.
\<close>

theorem paste_fills_and_completes:
  assumes L: "0 < length_prop p" and ls: "length s = length_prop p" and q: "quiescent p w"
    and valid: "list_all (validChar p) s" and oc: "onComplete p"
  shows "\<exists>w1. PinItem_handlePaste p 0 s w = Inr w1
      \<and> valuesRef (runDeferred p w1) = map (validatedChar p) s
      \<and> map (map_option cell_value) (elementsRef (runDeferred p w1)) =
          map (\<lambda>ch. Some (validatedChar p ch)) s
      \<and> calls (runDeferred p w1) =
          calls w @ [OnComplete (concat (map (validatedChar p) s)) (length_prop p - 1)]
      \<and> map owner (filter (\<lambda>x. delay x = 0) (timers w1)) = [0..<length_prop p]
      \<and> (\<forall>k<length_prop p.
            calls (foldl (\<lambda>w' x. fire p x w') w1 (take k (filter (\<lambda>x. delay x = 0) (timers w1))))
            = calls w)
      \<and> (validate p = None \<and> type_prop p = ''numeric'' \<longrightarrow>
            concat (map (validatedChar p) s) = s)
      \<and> (validate p = None \<and> type_prop p \<noteq> ''numeric''
           \<and> regexCriteria p = default_regexCriteria \<longrightarrow>
            concat (map (validatedChar p) s) = map asciiUpper s)"
proof -
  let ?n = "length_prop p"
  let ?f = "\<lambda>j. validatedChar p (s ! j)"
  from q have lv: "length (valuesRef w) = ?n" and le: "length (elementsRef w) = ?n"
    and cs: "list_all (\<lambda>e. case e of None \<Rightarrow> False
                       | Some c \<Rightarrow> (case secretTimeoutRef c of None \<Rightarrow> True
                                    | Some t \<Rightarrow> t < nextTimer w)) (elementsRef w)"
    and nz: "list_all (\<lambda>x. delay x \<noteq> 0) (timers w)"
    by (simp_all add: quiescent_def)
  have cells: "\<exists>c. getCell w j = Some c \<and> (\<forall>t. secretTimeoutRef c = Some t \<longrightarrow> t < nextTimer w)"
    if "0 \<le> j" "j < ?n" for j
  proof -
    from cs that le have "case elementsRef w ! j of None \<Rightarrow> False
                       | Some c \<Rightarrow> (case secretTimeoutRef c of None \<Rightarrow> True
                                    | Some t \<Rightarrow> t < nextTimer w)"
      by (simp add: list_all_length)
    then show ?thesis using that le
      by (auto simp: getCell_def split: option.splits)
  qed
  have vj: "validChar p (s ! j)" if "j < ?n" for j
    using valid that ls by (simp add: list_all_length)
  have z0: "n \<le> timer_id x" if "x \<in> set (timers w)" "delay x = 0" for x n
    using nz that by (auto simp: list_all_iff)
  have zw: "filter (\<lambda>x. delay x = 0) (timers w) = []"
    using nz by (auto simp: list_all_iff filter_empty_conv)
  from forEach_paste[OF le0 le ls cells vj z0 order_refl]
  obtain w1 where fe: "forEach_update p s [0..<?n] w = Inr w1"
    and f1: "valuesRef w1 = valuesRef w" "calls w1 = calls w" "length (elementsRef w1) = ?n"
    and c1: "\<forall>j. 0 \<le> j \<and> j < ?n \<longrightarrow>
                map_option cell_value (getCell w1 j) = Some (validatedChar p (s ! j))"
    and z1: "map (\<lambda>x. (owner x, action x)) (filter (\<lambda>x. delay x = 0) (timers w1)) =
              map (\<lambda>x. (owner x, action x)) (filter (\<lambda>x. delay x = 0) (timers w))
              @ map (\<lambda>j. (j, Notify (validatedChar p (s ! j)) True)) [0..<?n]"
    by blast
  let ?zs = "filter (\<lambda>x. delay x = 0) (timers w1)"
  have zs: "map (\<lambda>x. (owner x, action x)) ?zs = map (\<lambda>j. (j, Notify (?f j) True)) [0..<?n]"
    using z1 by (simp only: zw list.map append_Nil)
  have hp: "PinItem_handlePaste p 0 s w = Inr w1"
    using fe ls le by (simp add: PinItem_handlePaste_def handlePaste_def)
  have sub: "set ?zs \<subseteq> set (timers w1)" by auto
  have lv1: "length (valuesRef w1) = ?n" using f1 lv by simp
  have f1': "length (?f j) = 1" if "j < ?n" for j
    using validChar_result[OF vj[OF that]] by simp
  note np = notify_prefix[where f = ?f, OF lv1 _ f1']
  have rp: "foldl (\<lambda>w' x. fire p x w') w1 (take k ?zs) =
           (foldl (\<lambda>w' j. onItemChange p (?f j) True j w') w1 [0..<k])
             \<lparr>timers := foldl (\<lambda>ts x. remove1 x ts) (timers w1) (take k ?zs)\<rparr>"
    if "k \<le> ?n" for k
    by (rule run_prefix[OF zs sub that])
  have lz: "length ?zs = ?n"
    using arg_cong[OF zs, of length] by simp
  have rd: "runDeferred p w1 =
           (foldl (\<lambda>w' j. onItemChange p (?f j) True j w') w1 [0..<?n])
             \<lparr>timers := foldl (\<lambda>ts x. remove1 x ts) (timers w1) ?zs\<rparr>"
    using rp[OF order_refl] lz by (simp add: runDeferred_def)
  have mf: "map ?f [0..<?n] = map (validatedChar p) s"
    using ls by (intro nth_equalityI) simp_all
  have a: "valuesRef (runDeferred p w1) = map (validatedChar p) s"
    unfolding rd using np[OF order_refl] lv1 mf by simp
  have b: "map (map_option cell_value) (elementsRef (runDeferred p w1)) =
          map (\<lambda>ch. Some (validatedChar p ch)) s"
  proof (intro nth_equalityI)
    show "length (map (map_option cell_value) (elementsRef (runDeferred p w1))) =
          length (map (\<lambda>ch. Some (validatedChar p ch)) s)"
      unfolding rd using np[OF order_refl] f1 ls by simp
  next
    fix j assume "j < length (map (map_option cell_value) (elementsRef (runDeferred p w1)))"
    then have j: "j < ?n"
      unfolding rd using np[OF order_refl] f1 by simp
    have "elementsRef (runDeferred p w1) = elementsRef w1"
      unfolding rd using np[OF order_refl] by simp
    moreover have "map_option cell_value (elementsRef w1 ! j) = Some (validatedChar p (s ! j))"
      using c1 j f1 by (simp add: getCell_def)
    ultimately show "map (map_option cell_value) (elementsRef (runDeferred p w1)) ! j =
          map (\<lambda>ch. Some (validatedChar p ch)) s ! j"
      using j f1 ls by simp
  qed
  have c: "calls (runDeferred p w1) =
          calls w @ [OnComplete (concat (map (validatedChar p) s)) (?n - 1)]"
    unfolding rd using np[OF order_refl] L oc f1 mf by simp
  have d: "map owner ?zs = [0..<?n]"
    using arg_cong[OF zs, of "map fst"] by (simp add: comp_def)
  have e: "\<forall>k<?n. calls (foldl (\<lambda>w' x. fire p x w') w1 (take k ?zs)) = calls w"
  proof (intro allI impI)
    fix k assume k: "k < ?n"
    then have "k \<le> ?n" by simp
    from rp[OF this] np[OF this] k f1 show
      "calls (foldl (\<lambda>w' x. fire p x w') w1 (take k ?zs)) = calls w" by simp
  qed
  have va: "\<And>ch. ch \<in> set s \<Longrightarrow> validChar p ch"
    using valid by (simp add: list_all_iff)
  have g: "concat (map (validatedChar p) s) = s"
    if "validate p = None \<and> type_prop p = ''numeric''"
  proof -
    have eq: "map (validatedChar p) s = map (\<lambda>ch. [ch]) s"
      using that va by (intro map_cong refl validatedChar_numeric) auto
    show ?thesis unfolding eq concat_singletons by simp
  qed
  have h: "concat (map (validatedChar p) s) = map asciiUpper s"
    if "validate p = None \<and> type_prop p \<noteq> ''numeric''
           \<and> regexCriteria p = default_regexCriteria"
  proof -
    have eq: "map (validatedChar p) s = map (\<lambda>ch. [asciiUpper ch]) s"
      using that va by (intro map_cong refl validatedChar_regex) auto
    show ?thesis unfolding eq concat_singletons by simp
  qed
  from hp a b c d e g h show ?thesis by blast
qed

theorem paste_fills_and_completes_witness:
  "0 < length_prop regexProps \<and> length [0x61, 0x62, 0x31, 0x32 :: jschar] = length_prop regexProps
   \<and> quiescent regexProps widget4 \<and> list_all (validChar regexProps) [0x61, 0x62, 0x31, 0x32]
   \<and> onComplete regexProps
   \<and> (\<exists>w1. PinItem_handlePaste regexProps 0 [0x61, 0x62, 0x31, 0x32] widget4 = Inr w1
         \<and> valuesRef (runDeferred regexProps w1) = [[0x41], [0x42], [0x31], [0x32]]
         \<and> map (map_option cell_value) (elementsRef (runDeferred regexProps w1)) =
             [Some [0x41], Some [0x42], Some [0x31], Some [0x32]]
         \<and> calls (runDeferred regexProps w1) = [OnComplete [0x41, 0x42, 0x31, 0x32] 3])"
proof -
  have r: "validate regexProps = None" "type_prop regexProps \<noteq> ''numeric''"
    "regexCriteria regexProps = default_regexCriteria" "unicodeUpper regexProps = (\<lambda>s. s)"
    "length_prop regexProps = 4" "onComplete regexProps"
    by (simp_all add: regexProps_def numericProps_def)
  have vr: "validateValue_result regexProps (Some [0x61]) = Inr [0x41]"
    "validateValue_result regexProps (Some [0x62]) = Inr [0x42]"
    "validateValue_result regexProps (Some [0x31]) = Inr [0x31]"
    "validateValue_result regexProps (Some [0x32]) = Inr [0x32]"
    by (simp_all add: validateValue_result_def r default_regexCriteria_def isAlnum_def
          toUpperCase_def asciiUpper_def)
  have h: "0 < length_prop regexProps"
    "length [0x61, 0x62, 0x31, 0x32 :: jschar] = length_prop regexProps"
    "quiescent regexProps widget4" "list_all (validChar regexProps) [0x61, 0x62, 0x31, 0x32]"
    "onComplete regexProps"
    by (simp_all add: r quiescent_def widget4_def emptyCell_def validChar_def vr)
  have ev: "validatedChar regexProps 0x61 = [0x41]" "validatedChar regexProps 0x62 = [0x42]"
    "validatedChar regexProps 0x31 = [0x31]" "validatedChar regexProps 0x32 = [0x32]"
    "calls widget4 = []"
    by (simp_all add: validatedChar_def vr widget4_def)
  have e: "\<exists>w1. PinItem_handlePaste regexProps 0 [0x61, 0x62, 0x31, 0x32] widget4 = Inr w1
         \<and> valuesRef (runDeferred regexProps w1) = [[0x41], [0x42], [0x31], [0x32]]
         \<and> map (map_option cell_value) (elementsRef (runDeferred regexProps w1)) =
             [Some [0x41], Some [0x42], Some [0x31], Some [0x32]]
         \<and> calls (runDeferred regexProps w1) = [OnComplete [0x41, 0x42, 0x31, 0x32] 3]"
    using paste_fills_and_completes[OF h]
    apply (elim exE conjE)
    apply (intro exI conjI)
       apply assumption
      apply (simp_all add: ev r)
    done
  from h e show ?thesis by (intro conjI)
qed

text \<open>
  C5. A pasted string whose length is not \<open>length\<close> leaves the whole state as it is: no
  cell, no slot of \<open>valuesRef\<close>, no pending timer and no call of a callback changes.
\<close>

theorem handlePaste_wrong_length:
  assumes "length pastedValue \<noteq> length_prop p"
  shows "handlePaste p pastedValue w = Inr w \<and> PinItem_handlePaste p i pastedValue w = Inr w"
  using assms by (simp add: handlePaste_def PinItem_handlePaste_def)

theorem handlePaste_wrong_length_witness:
  "length [0x31, 0x32, 0x33 :: jschar] \<noteq> length_prop numericProps
   \<and> handlePaste numericProps [0x31, 0x32, 0x33] widget4 = Inr widget4
   \<and> PinItem_handlePaste numericProps 0 [0x31, 0x32, 0x33] widget4 = Inr widget4"
proof -
  have h: "length [0x31, 0x32, 0x33 :: jschar] \<noteq> length_prop numericProps"
    by (simp add: numericProps_def)
  from handlePaste_wrong_length[OF h, of widget4 0] h show ?thesis by simp
qed

section \<open>The secret delay\<close>

text \<open>
  A cell that is first rendered with a secret delay other than 0 throws, so the states
  below are those of a widget whose \<open>secretDelay\<close> was raised after the first render.
\<close>

lemma mountItem_secretDelay: "secretDelay p \<noteq> 0 \<Longrightarrow> mountItem p val = Inl ReferenceError"
  by (simp add: mountItem_def)

text \<open>
  What a keystroke does when the secret delay is not 0, whether or not \<open>secret\<close> is set,
  and every pending hide timer of the cell is the one its \<open>secretTimeoutRef\<close> holds: the
  display is unmasked at once, and afterwards exactly one hide timer of the cell is
  pending, the new one with the delay \<open>secretDelay\<close>. When it elapses \<open>showSecret\<close> becomes
  \<open>Boolean(val)\<close> for the raw text \<open>val\<close> of that keystroke, and no hide timer of the cell
  is left.
\<close>

lemma secret_delay_keystroke:
  assumes "secretDelay p \<noteq> 0" and "getCell w i = Some c"
    and "list_all (\<lambda>x. secretTimeoutRef c = Some (timer_id x) \<and> timer_id x \<noteq> 0)
           (secretTimers i w)"
  shows "\<exists>w'. handleChange p i raw w = Inr w'
           \<and> map_option showSecret (getCell w' i) = Some False
           \<and> secretTimers i w' =
                [\<lparr>timer_id = nextTimer w, owner = i, delay = secretDelay p,
                  action = HideSecret (Some raw)\<rparr>]
           \<and> map_option showSecret
                (getCell (fire p \<lparr>timer_id = nextTimer w, owner = i, delay = secretDelay p,
                                  action = HideSecret (Some raw)\<rparr> w') i) = Some (raw \<noteq> [])
           \<and> secretTimers i
                (fire p \<lparr>timer_id = nextTimer w, owner = i, delay = secretDelay p,
                          action = HideSecret (Some raw)\<rparr> w') = []"
proof -
  let ?x = "\<lparr>timer_id = nextTimer w, owner = i, delay = secretDelay p,
             action = HideSecret (Some raw)\<rparr>"
  have il: "i < length (elementsRef w)"
    using assms(2) by (auto simp: getCell_def split: if_splits)
  obtain v where v: "validateValue_result p (Some raw) = Inr v"
    using validateValue_result_Some by blast
  obtain c1 w1 where s: "setSecretDelayed p i (Some raw) c w = (c1, w1)" by fastforce
  have vv: "validateValue p i (Some raw) c w = Inr (v, c1, w1)"
    using validateValue_Inr[OF v, of i c w] assms(1) s by simp
  note fr = setSecretDelayed_frame[OF s] and tm = setSecretDelayed_timers[OF s]
  have old: "filter (\<lambda>x. owner x = i \<and> (case action x of HideSecret val \<Rightarrow> True | Notify v b \<Rightarrow> False))
               (filter (\<lambda>x. case secretTimeoutRef c of None \<Rightarrow> True
                               | Some t \<Rightarrow> t = 0 \<or> timer_id x \<noteq> t) (timers w)) = []"
    using assms(3) by (auto simp: secretTimers_def list_all_iff filter_empty_conv split: option.splits)
  have st1: "secretTimers i w1 = [?x]"
    using tm old by (simp add: secretTimers_def)
  obtain c' w' where u: "update p i (Some raw) False c w = Inr (c', w')"
    and c': "showSecret c' = False"
    and w': "elementsRef w' = elementsRef w" "secretTimers i w' = [?x]"
  proof (cases "v \<noteq> cell_value c \<and> length v < 2")
    case True
    let ?w = "w1\<lparr>timers := timers w1 @ [\<lparr>timer_id = nextTimer w1, owner = i, delay = 0,
                 action = Notify v False\<rparr>], nextTimer := Suc (nextTimer w1)\<rparr>"
    let ?c = "c1\<lparr>cell_value := v, inputTimeoutRef := Some (nextTimer w1)\<rparr>"
    from True vv have "update p i (Some raw) False c w = Inr (?c, ?w)"
      by (auto simp: update_def setTimeout_def)
    moreover have "secretTimers i ?w = [?x]"
      using st1 by (simp add: secretTimers_def)
    ultimately show ?thesis using that[of ?c ?w] fr by simp
  next
    case False
    from False vv have "update p i (Some raw) False c w = Inr (c1, w1)"
      by (auto simp: update_def)
    then show ?thesis using that[of c1 w1] fr st1 by simp
  qed
  let ?W = "putCell i c' w'"
  have hc: "handleChange p i raw w = Inr ?W"
    using assms(2) u by (simp add: handleChange_def)
  have g: "getCell ?W i = Some c'"
    using il w' by (simp add: getCell_def putCell_def)
  have stW: "secretTimers i ?W = [?x]"
    using w' by (simp add: secretTimers_putCell)
  have "?x \<in> set (secretTimers i ?W)"
    by (simp only: stW list.set_intros)
  then have mem: "?x \<in> set (timers ?W)"
    by (simp add: secretTimers_def)
  have fireW: "fire p ?x ?W =
                 putCell i (c'\<lparr>showSecret := (raw \<noteq> [])\<rparr>) (?W\<lparr>timers := remove1 ?x (timers ?W)\<rparr>)"
    using mem il w' by (simp add: fire_def getCell_def putCell_def)
  have g2: "map_option showSecret (getCell (fire p ?x ?W) i) = Some (raw \<noteq> [])"
    unfolding fireW using il w' by (simp add: getCell_def putCell_def)
  have "secretTimers i (fire p ?x ?W) = remove1 ?x (secretTimers i ?W)"
    unfolding fireW by (simp add: secretTimers_def putCell_def filter_remove1)
  with stW have st3: "secretTimers i (fire p ?x ?W) = []" by simp
  from hc g c' stW g2 st3 show ?thesis by simp
qed

lemma secret_delay_keystroke_example:
  "secretDelay secretProps \<noteq> 0 \<and> getCell afterKeystroke 0 = Some (emptyCell\<lparr>secretTimeoutRef := Some 1\<rparr>)
   \<and> list_all (\<lambda>x. secretTimeoutRef (emptyCell\<lparr>secretTimeoutRef := Some 1\<rparr>) = Some (timer_id x)
                   \<and> timer_id x \<noteq> 0) (secretTimers 0 afterKeystroke)
   \<and> secretTimers 0 afterKeystroke =
        [\<lparr>timer_id = 1, owner = 0, delay = 500, action = HideSecret (Some [0x61])\<rparr>]
   \<and> (\<exists>w'. handleChange secretProps 0 [0x39] afterKeystroke = Inr w'
         \<and> map_option showSecret (getCell w' 0) = Some False
         \<and> secretTimers 0 w' =
              [\<lparr>timer_id = 2, owner = 0, delay = 500, action = HideSecret (Some [0x39])\<rparr>]
         \<and> map_option showSecret
              (getCell (fire secretProps
                 \<lparr>timer_id = 2, owner = 0, delay = 500, action = HideSecret (Some [0x39])\<rparr> w') 0)
            = Some True)"
proof -
  have h: "secretDelay secretProps \<noteq> 0"
    "getCell afterKeystroke 0 = Some (emptyCell\<lparr>secretTimeoutRef := Some 1\<rparr>)"
    "list_all (\<lambda>x. secretTimeoutRef (emptyCell\<lparr>secretTimeoutRef := Some 1\<rparr>) = Some (timer_id x)
                   \<and> timer_id x \<noteq> 0) (secretTimers 0 afterKeystroke)"
    by (simp_all add: secretProps_def numericProps_def afterKeystroke_def widget4_def getCell_def
          secretTimers_def)
  have e: "secretTimers 0 afterKeystroke =
        [\<lparr>timer_id = 1, owner = 0, delay = 500, action = HideSecret (Some [0x61])\<rparr>]"
    "nextTimer afterKeystroke = 2" "secretDelay secretProps = 500"
    by (simp_all add: secretProps_def numericProps_def afterKeystroke_def widget4_def secretTimers_def)
  from secret_delay_keystroke[OF h, of "[0x39]"] h e show ?thesis by auto
qed

text \<open>
  C6. The code masks a cell that is empty: in numeric mode with \<open>secret\<close> set and a
  secret delay of 500 ms, the keystroke \<open>a\<close> in an empty cell is rejected, the cell
  stays empty, and when the hide timer elapses the display is masked all the same. The
  timer looks at the raw text of the keystroke and not at the cell, where the comments
  of \<open>setSecretDelayed\<close> say that the display is hidden again if the input is not empty.
\<close>

theorem secret_hide_masks_empty_cell:
  "map_option cell_value (getCell secretWidget4 0) = Some []
   \<and> handleChange secretProps 0 [0x61] secretWidget4 = Inr afterKeystroke
   \<and> timers afterKeystroke =
        [\<lparr>timer_id = 1, owner = 0, delay = 500, action = HideSecret (Some [0x61])\<rparr>]
   \<and> map_option cell_value
        (getCell (fire secretProps
                    \<lparr>timer_id = 1, owner = 0, delay = 500, action = HideSecret (Some [0x61])\<rparr>
                    afterKeystroke) 0) = Some []
   \<and> map_option showSecret
        (getCell (fire secretProps
                    \<lparr>timer_id = 1, owner = 0, delay = 500, action = HideSecret (Some [0x61])\<rparr>
                    afterKeystroke) 0) = Some True"
  by (simp add: handleChange_def update_def validateValue_def validateValue_result_def
        setSecretDelayed_def setTimeout_def secretProps_def numericProps_def widget4_def
        secretWidget4_def maskedCell_def emptyCell_def afterKeystroke_def getCell_def putCell_def
        fire_def Let_def)

section \<open>Handles that are absent\<close>








text \<open>
  The effect itself has no \<open>?.\<close>: on a state with \<open>focus\<close> set and no handle at index 0,
  which no first render produces, it would throw.
\<close>

lemma focusEffect_absent_handle:
  "focusEffect (numericProps\<lparr>focus_prop := True\<rparr>) (widget4\<lparr>elementsRef := []\<rparr>) = Inl TypeError"
  by (simp add: focusEffect_def numericProps_def getCell_def)

end
